theory Spec2Isabelle
  imports Complex_Main "HOL-Library.Multiset"
begin

section \<open>Definitions\<close>

subsection \<open>Candidate ranking (src/src/utils.py, rank_candidates)\<close>

text \<open>
  A candidate is the dictionary built in app.py: the five profile entries, and the two
  entries \<open>match_score\<close> and \<open>match_percentage\<close> that only \<open>rank_candidates\<close> writes
  (absent, \<open>None\<close>, until then). The percentage is a Python float (or the integer 0
  for an empty job-skill set); it is modelled by the exact rational value of the
  expression, so the rounding of the float operations is not part of the model.
\<close>

record candidate =
  name :: string
  skills :: "string list"
  experience :: "string list"
  education :: "string list"
  projects :: "string list"
  match_score :: "nat option"
  match_percentage :: "rat option"

text \<open>\<open>len(job_skills_set.intersection(set(candidate['skills'])))\<close>: Python sets as
  duplicate-free lists.\<close>

definition intersection_len :: "string list \<Rightarrow> string list \<Rightarrow> nat" where
  "intersection_len js ss = length (filter (\<lambda>s. s \<in> set ss) (remdups js))"

text \<open>The body of the \<open>for\<close> loop: both entries of one candidate are overwritten.\<close>

definition score_candidate :: "string list \<Rightarrow> candidate \<Rightarrow> candidate" where
  "score_candidate job_skills c =
     (let job_skills_set = remdups job_skills;
          ms = intersection_len job_skills (skills c)
      in c\<lparr>match_score := Some ms,
           match_percentage :=
             Some (if job_skills_set \<noteq> []
                   then (of_nat ms / of_nat (length job_skills_set)) * 100
                   else 0)\<rparr>)"

text \<open>The sort key \<open>lambda x: x['match_percentage']\<close>. A missing entry is a KeyError in
  Python; the loop has written the entry of every candidate before the sort reads it.\<close>

definition percentage_key :: "candidate \<Rightarrow> rat" where
  "percentage_key c = (case match_percentage c of Some p \<Rightarrow> p | None \<Rightarrow> 0)"

text \<open>\<open>list.sort(key=..., reverse=True)\<close>: Python's sort is stable, and with
  \<open>reverse=True\<close> it reverses the list, sorts it stably in ascending order and reverses
  the result, so candidates with equal keys keep their order.\<close>

definition sort_reverse :: "('a \<Rightarrow> 'k::linorder) \<Rightarrow> 'a list \<Rightarrow> 'a list" where
  "sort_reverse f xs = rev (sort_key f (rev xs))"

definition rank_candidates :: "string list \<Rightarrow> candidate list \<Rightarrow> candidate list" where
  "rank_candidates job_skills candidate_data =
     sort_reverse percentage_key (map (score_candidate job_skills) candidate_data)"


text \<open>The input of the ranking example of the specification: five job skills, and three
  candidates A, B and C that share three, three and four of them.\<close>

definition example_job_skills :: "string list" where
  "example_job_skills = [''Python'', ''Sql'', ''Pandas'', ''Numpy'', ''Git'']"

definition example_candidates :: "candidate list" where
  "example_candidates =
     [\<lparr>name = ''A'', skills = [''Python'', ''Sql'', ''Pandas''], experience = [],
       education = [], projects = [], match_score = None, match_percentage = None\<rparr>,
      \<lparr>name = ''B'', skills = [''Git'', ''Numpy'', ''Python'', ''Excel''], experience = [],
       education = [], projects = [], match_score = None, match_percentage = None\<rparr>,
      \<lparr>name = ''C'', skills = [''Python'', ''Sql'', ''Pandas'', ''Git''], experience = [],
       education = [], projects = [], match_score = None, match_percentage = None\<rparr>]"

text \<open>A candidate without the two entries that the ranking writes.\<close>

definition unranked :: "candidate \<Rightarrow> candidate" where
  "unranked c = c\<lparr>match_score := None, match_percentage := None\<rparr>"

subsection \<open>Python strings\<close>

text \<open>
  A Python \<open>str\<close> is a sequence of code points. The model is \<open>string\<close>, whose
  characters are the code points below 256; the character classes and case mappings
  below are those of Python (Unicode) on that range.
\<close>

definition cp :: "char \<Rightarrow> nat" where
  "cp c = of_char c"

text \<open>\<open>str.isspace\<close>, which is also the class \<open>\s\<close> of the \<open>re\<close> module.\<close>

definition isspace :: "char \<Rightarrow> bool" where
  "isspace c =
     (let n = cp c
      in (9 \<le> n \<and> n \<le> 13) \<or> (28 \<le> n \<and> n \<le> 32) \<or> n = 133 \<or> n = 160)"

text \<open>The class \<open>\w\<close> of the \<open>re\<close> module on a \<open>str\<close> pattern: \<open>str.isalnum\<close> or the
  underscore. Beyond ASCII it holds the letters, superscript digits and fractions of
  the range.\<close>

definition isword :: "char \<Rightarrow> bool" where
  "isword c =
     (let n = cp c
      in (48 \<le> n \<and> n \<le> 57) \<or> (65 \<le> n \<and> n \<le> 90) \<or> n = 95 \<or> (97 \<le> n \<and> n \<le> 122)
         \<or> n = 170 \<or> n = 178 \<or> n = 179 \<or> n = 181 \<or> n = 185 \<or> n = 186
         \<or> (188 \<le> n \<and> n \<le> 190) \<or> (192 \<le> n \<and> n \<le> 214) \<or> (216 \<le> n \<and> n \<le> 246)
         \<or> 248 \<le> n)"

text \<open>The class \<open>[A-Za-z0-9_]\<close>.\<close>

definition ascii_word :: "char \<Rightarrow> bool" where
  "ascii_word c =
     (let n = cp c
      in (48 \<le> n \<and> n \<le> 57) \<or> (65 \<le> n \<and> n \<le> 90) \<or> n = 95 \<or> (97 \<le> n \<and> n \<le> 122))"

text \<open>The characters with a lowercase partner 32 code points above them, and the
  characters with an uppercase partner 32 below. In both ranges the bit of weight 32
  is what differs, so the mapping sets or clears that bit.\<close>

definition has_lower :: "char \<Rightarrow> bool" where
  "has_lower c =
     (let n = cp c in (65 \<le> n \<and> n \<le> 90) \<or> (192 \<le> n \<and> n \<le> 214) \<or> (216 \<le> n \<and> n \<le> 222))"

definition has_upper :: "char \<Rightarrow> bool" where
  "has_upper c =
     (let n = cp c in (97 \<le> n \<and> n \<le> 122) \<or> (224 \<le> n \<and> n \<le> 246) \<or> (248 \<le> n \<and> n \<le> 254))"

fun add32 :: "char \<Rightarrow> char" where
  "add32 (Char b0 b1 b2 b3 b4 b5 b6 b7) = Char b0 b1 b2 b3 b4 True b6 b7"

fun sub32 :: "char \<Rightarrow> char" where
  "sub32 (Char b0 b1 b2 b3 b4 b5 b6 b7) = Char b0 b1 b2 b3 b4 False b6 b7"

definition lower_char :: "char \<Rightarrow> char" where
  "lower_char c = (if has_lower c then add32 c else c)"

text \<open>The uppercase (and titlecase) partner. For the three lowercase letters of the
  range whose partner is not below 256 (code points 181, 223 and 255) the character is
  left as it is; Python gives a character or a pair outside the range there.\<close>

definition upper_char :: "char \<Rightarrow> char" where
  "upper_char c = (if has_upper c then sub32 c else c)"

text \<open>The cased characters, which \<open>str.title\<close> takes as the letters of a word.\<close>

definition iscased :: "char \<Rightarrow> bool" where
  "iscased c =
     (let n = cp c
      in (65 \<le> n \<and> n \<le> 90) \<or> (97 \<le> n \<and> n \<le> 122) \<or> n = 170 \<or> n = 181 \<or> n = 186
         \<or> (192 \<le> n \<and> n \<le> 214) \<or> (216 \<le> n \<and> n \<le> 246) \<or> 248 \<le> n)"

text \<open>\<open>str.lower\<close>.\<close>

definition str_lower :: "string \<Rightarrow> string" where
  "str_lower s = map lower_char s"

text \<open>\<open>str.title\<close>: a character that follows a cased character is lowercased, any
  other character is titlecased.\<close>

fun title_from :: "bool \<Rightarrow> string \<Rightarrow> string" where
  "title_from previous_is_cased [] = []"
| "title_from previous_is_cased (c # cs) =
     (if previous_is_cased then lower_char c else upper_char c) # title_from (iscased c) cs"

definition str_title :: "string \<Rightarrow> string" where
  "str_title s = title_from False s"

text \<open>\<open>str.strip()\<close>.\<close>

definition str_strip :: "string \<Rightarrow> string" where
  "str_strip s = rev (dropWhile isspace (rev (dropWhile isspace s)))"

text \<open>\<open>keyword in s\<close> on strings: \<open>keyword\<close> occurs in \<open>s\<close> as a contiguous run.\<close>

fun str_contains :: "string \<Rightarrow> string \<Rightarrow> bool" where
  "str_contains keyword [] = (keyword = [])"
| "str_contains keyword (c # cs) =
     (take (length keyword) (c # cs) = keyword \<or> str_contains keyword cs)"

definition newline :: char where
  "newline = CHR 0x0A"

subsection \<open>Regular expressions of the \<open>re\<close> module\<close>

text \<open>
  The constructs that the two patterns of the repository use. A character class is a
  predicate; a literal under \<open>re.IGNORECASE\<close> and the dot under \<open>re.DOTALL\<close> are
  classes too. The repetitions are the greedy \<open>x*\<close> and the lazy \<open>x*?\<close> of a
  one-character \<open>x\<close>. \<open>AtEnd\<close> is \<open>$\<close> without \<open>re.MULTILINE\<close>.
\<close>

datatype re =
    Empty
  | Class "char \<Rightarrow> bool"
  | Cat re re
  | Or re re
  | MaxRepeat "char \<Rightarrow> bool"
  | MinRepeat "char \<Rightarrow> bool"
  | Group re
  | AtEnd

text \<open>
  The backtracking matcher: \<open>mt r s g k\<close> matches \<open>r\<close> at the start of \<open>s\<close> and hands the
  rest of the text and the capture of the group to the continuation \<open>k\<close>; when \<open>k\<close>
  fails the matcher takes its next choice, in the order of the \<open>re\<close> module: the left
  alternative before the right one, the longest repetition first for \<open>x*\<close>, the
  shortest first for \<open>x*?\<close>.
\<close>

fun mt :: "re \<Rightarrow> string \<Rightarrow> string option
            \<Rightarrow> (string \<Rightarrow> string option \<Rightarrow> 'a option) \<Rightarrow> 'a option" where
  "mt Empty s g k = k s g"
| "mt (Class P) s g k = (case s of [] \<Rightarrow> None | c # cs \<Rightarrow> if P c then k cs g else None)"
| "mt (Cat a b) s g k = mt a s g (\<lambda>s' g'. mt b s' g' k)"
| "mt (Or a b) s g k = (case mt a s g k of Some r \<Rightarrow> Some r | None \<Rightarrow> mt b s g k)"
| "mt (MaxRepeat P) s g k =
     (case s of
        [] \<Rightarrow> k s g
      | c # cs \<Rightarrow>
          if P c then (case mt (MaxRepeat P) cs g k of Some r \<Rightarrow> Some r | None \<Rightarrow> k s g)
          else k s g)"
| "mt (MinRepeat P) s g k =
     (case k s g of
        Some r \<Rightarrow> Some r
      | None \<Rightarrow>
          (case s of [] \<Rightarrow> None | c # cs \<Rightarrow> if P c then mt (MinRepeat P) cs g k else None))"
| "mt (Group a) s g k = mt a s g (\<lambda>s' g'. k s' (Some (take (length s - length s') s)))"
| "mt AtEnd s g k = (if s = [] \<or> s = [newline] then k s g else None)"

text \<open>One match attempt at the start of \<open>s\<close>: the capture of the group and the text
  after the match. With \<open>must_advance\<close> an empty match is not accepted, which is how
  \<open>findall\<close> goes on after an empty match.\<close>

definition re_match :: "re \<Rightarrow> bool \<Rightarrow> string \<Rightarrow> (string option \<times> string) option" where
  "re_match r must_advance s =
     mt r s None (\<lambda>s' g. if must_advance \<and> length s' = length s then None else Some (g, s'))"

text \<open>What \<open>findall\<close> reports for a match: the group when the pattern has one, the whole
  match otherwise.\<close>

definition match_item :: "string \<Rightarrow> string option \<times> string \<Rightarrow> string" where
  "match_item s m =
     (case fst m of Some g \<Rightarrow> g | None \<Rightarrow> take (length s - length (snd m)) s)"

text \<open>\<open>re.findall\<close>: the matches from left to right, each search starting where the
  match before it ended.\<close>

text \<open>Every success of the matcher is a success of its continuation, on a text that is
  not longer: a match never ends before its start. \<open>findall\<close> terminates by this.\<close>

lemma mt_continues:
  "mt r s g k = Some x \<Longrightarrow> \<exists>s' g'. k s' g' = Some x \<and> length s' \<le> length s"
proof (induction r s g k rule: mt.induct)
  case (1 s g k)
  then show ?case by auto
next
  case (2 P s g k)
  then show ?case by (auto split: list.splits if_splits)
next
  case (3 a b s g k)
  from "3.prems" have "mt a s g (\<lambda>s' g'. mt b s' g' k) = Some x" by simp
  from "3.IH"(2)[OF this] obtain s1 g1
    where 1: "mt b s1 g1 k = Some x" and l1: "length s1 \<le> length s"
    by blast
  from "3.IH"(1)[OF 1] obtain s2 g2 where "k s2 g2 = Some x" and "length s2 \<le> length s1"
    by blast
  with l1 show ?case by (meson le_trans)
next
  case (4 a b s g k)
  then show ?case by (auto split: option.splits)
next
  case (5 P s g k)
  show ?case
  proof (cases s)
    case Nil
    with "5.prems" show ?thesis by auto
  next
    case (Cons c cs)
    show ?thesis
    proof (cases "P c \<and> mt (MaxRepeat P) cs g k \<noteq> None")
      case True
      with "5.prems" Cons have "mt (MaxRepeat P) cs g k = Some x" by auto
      from "5.IH"[OF Cons _ this] True obtain s' g'
        where "k s' g' = Some x" "length s' \<le> length cs"
        by blast
      then show ?thesis using Cons by (intro exI[of _ s'] exI[of _ g']) simp
    next
      case False
      with "5.prems" Cons have "k s g = Some x" by (auto split: if_splits option.splits)
      then show ?thesis by blast
    qed
  qed
next
  case (6 P s g k)
  show ?case
  proof (cases "k s g")
    case (Some y)
    with "6.prems" have "k s g = Some x" by simp
    then show ?thesis by blast
  next
    case None
    with "6.prems" obtain c cs
      where s: "s = c # cs" and P: "P c" and m: "mt (MinRepeat P) cs g k = Some x"
      by (auto split: list.splits if_splits)
    from "6.IH"[OF None s P m] obtain s' g'
      where "k s' g' = Some x" "length s' \<le> length cs"
      by blast
    then show ?thesis using s by (intro exI[of _ s'] exI[of _ g']) simp
  qed
next
  case (7 a s g k)
  from "7.prems"
  have "mt a s g (\<lambda>s' g'. k s' (Some (take (length s - length s') s))) = Some x"
    by simp
  from "7.IH"[OF this] show ?case by blast
next
  case (8 s g k)
  then show ?case by (auto split: if_splits)
qed

lemma re_match_length:
  assumes "re_match r must_advance s = Some m"
  shows "length (snd m) \<le> length s" and "must_advance \<Longrightarrow> length (snd m) < length s"
proof -
  from assms obtain s' g'
    where k: "(if must_advance \<and> length s' = length s then None else Some (g', s')) = Some m"
      and l: "length s' \<le> length s"
    unfolding re_match_def by (blast dest: mt_continues)
  from k have m: "m = (g', s')" and ne: "\<not> (must_advance \<and> length s' = length s)"
    by (auto split: if_splits)
  show "length (snd m) \<le> length s" using l m by simp
  show "length (snd m) < length s" if must_advance using that l m ne by auto
qed

function findall_from :: "re \<Rightarrow> bool \<Rightarrow> string \<Rightarrow> string list" where
  "findall_from r must_advance s =
     (case re_match r must_advance s of
        Some m \<Rightarrow> match_item s m # findall_from r (length (snd m) = length s) (snd m)
      | None \<Rightarrow> (case s of [] \<Rightarrow> [] | c # cs \<Rightarrow> findall_from r False cs))"
  by pat_completeness auto
termination
proof (relation "measure (\<lambda>(r, must_advance, s). 2 * length s + (if must_advance then 0 else 1))")
  show "wf (measure (\<lambda>(r, must_advance, s). 2 * length s + (if must_advance then 0 else 1)))"
    by simp
next
  fix r must_advance s m
  assume "re_match r must_advance s = Some m"
  from re_match_length[OF this]
  show "((r, length (snd m) = length s, snd m), (r, must_advance, s))
        \<in> measure (\<lambda>(r, must_advance, s). 2 * length s + (if must_advance then 0 else 1))"
    by (cases must_advance) auto
next
  fix r must_advance s c cs
  assume "s = c # cs"
  then show "((r, False, cs), (r, must_advance, s))
        \<in> measure (\<lambda>(r, must_advance, s). 2 * length s + (if must_advance then 0 else 1))"
    by simp
qed

definition findall :: "re \<Rightarrow> string \<Rightarrow> string list" where
  "findall r s = findall_from r False s"

text \<open>A literal character under \<open>re.IGNORECASE\<close>: a character of the text matches it
  when both have the same lowercase form. The dot under \<open>re.DOTALL\<close> matches every
  character.\<close>

definition char_ignorecase :: "char \<Rightarrow> char \<Rightarrow> bool" where
  "char_ignorecase c x = (lower_char x = lower_char c)"

definition any_char :: "char \<Rightarrow> bool" where
  "any_char c = True"

text \<open>A run of literal characters of a pattern.\<close>

fun literal :: "bool \<Rightarrow> string \<Rightarrow> re" where
  "literal ignorecase [] = Empty"
| "literal ignorecase (c # cs) =
     Cat (Class (if ignorecase then char_ignorecase c else (=) c)) (literal ignorecase cs)"

subsection \<open>The alternate lexical scorer (src/main.py, calculate_score)\<close>

text \<open>The pattern \<open>\w+\<close>.\<close>

definition word_pattern :: re where
  "word_pattern = Cat (Class isword) (MaxRepeat isword)"

text \<open>Python sets are duplicate-free lists; the score is the exact rational value of the
  float expression.\<close>

definition calculate_score :: "string \<Rightarrow> string \<Rightarrow> rat" where
  "calculate_score resume jd =
     (let resume_words = remdups (findall word_pattern (str_lower resume));
          jd_words = remdups (findall word_pattern (str_lower jd))
      in if jd_words = [] then 0
         else (let matching_words = filter (\<lambda>w. w \<in> set jd_words) resume_words;
                   score = of_nat (length matching_words) / of_nat (length jd_words)
               in score * 100))"

text \<open>The scorer as the specification words it: the tokens are the runs of the class
  \<open>[A-Za-z0-9_]\<close> in the lowercased text.\<close>

definition spec_tokens :: "string \<Rightarrow> string set" where
  "spec_tokens s = set (findall (Cat (Class ascii_word) (MaxRepeat ascii_word)) (str_lower s))"

definition spec_score :: "string \<Rightarrow> string \<Rightarrow> rat" where
  "spec_score resume jd =
     (if spec_tokens jd = {} then 0
      else 100 * of_nat (card (spec_tokens resume \<inter> spec_tokens jd))
             / of_nat (card (spec_tokens jd)))"

text \<open>The maximal runs of the characters of a class in a text, from left to right.\<close>

function runs :: "(char \<Rightarrow> bool) \<Rightarrow> string \<Rightarrow> string list" where
  "runs P s =
     (case dropWhile (\<lambda>c. \<not> P c) s of
        [] \<Rightarrow> []
      | c # cs \<Rightarrow> (c # takeWhile P cs) # runs P (dropWhile P cs))"
  by pat_completeness auto
termination
proof (relation "measure (\<lambda>(P, s). length s)")
  show "wf (measure (\<lambda>(P, s). length s))" by simp
next
  fix P and s :: string and c cs
  assume "dropWhile (\<lambda>c. \<not> P c) s = c # cs"
  then have "length (c # cs) \<le> length s"
    by (metis length_dropWhile_le)
  moreover have "length (dropWhile P cs) \<le> length cs"
    by (rule length_dropWhile_le)
  ultimately show "((P, dropWhile P cs), (P, s)) \<in> measure (\<lambda>(P, s). length s)" by simp
qed

subsection \<open>The projects section (src/src/utils.py, detailed_extract_projects)\<close>

text \<open>The pattern
  \<^verbatim>\<open>(?:projects|portfolio|personal projects)\s*\n(.*?)(?:\n\n\s*(?:skills|experience|education)|$)\<close>
  compiled with \<open>re.IGNORECASE | re.DOTALL\<close>; \<open>stop_pattern\<close> is its last group.\<close>

definition stop_pattern :: re where
  "stop_pattern =
     Or (Cat (literal True [newline, newline])
        (Cat (MaxRepeat isspace)
             (Or (literal True ''skills'')
                 (Or (literal True ''experience'') (literal True ''education'')))))
        AtEnd"

definition project_pattern :: re where
  "project_pattern =
     Cat (Or (literal True ''projects'')
             (Or (literal True ''portfolio'') (literal True ''personal projects'')))
    (Cat (MaxRepeat isspace)
    (Cat (literal True [newline])
    (Cat (Group (MinRepeat any_char)) stop_pattern)))"

definition detailed_extract_projects :: "string \<Rightarrow> string list" where
  "detailed_extract_projects text =
     (let project_sections = findall project_pattern text
      in if project_sections \<noteq> [] then map str_strip project_sections
         else [''No projects section found.''])"

text \<open>
  The same extraction described without the pattern. \<open>starts_with w s\<close>: the text \<open>s\<close>
  begins with the word \<open>w\<close> in any casing. \<open>after_header\<close>: the text behind a header word
  at the start. \<open>after_last_newline\<close>: what follows the last newline of the whitespace
  at the start, when that whitespace has a newline. \<open>block_end\<close>: the text ends here
  (or with one last newline), or a blank line comes here, followed after optional
  whitespace by text that begins with \<open>skills\<close>, \<open>experience\<close> or \<open>education\<close>; the
  result is the text behind that word. \<open>block_from\<close>: the text up to the first block
  end, and the text behind that end. \<open>project_blocks\<close>: the blocks from left to right,
  each search starting behind the end of the block before it.
\<close>

definition starts_with :: "string \<Rightarrow> string \<Rightarrow> bool" where
  "starts_with w s = (length w \<le> length s \<and> str_lower (take (length w) s) = str_lower w)"

definition first_word :: "string list \<Rightarrow> string \<Rightarrow> string option" where
  "first_word ws s =
     (case filter (\<lambda>w. starts_with w s) ws of [] \<Rightarrow> None | w # _ \<Rightarrow> Some (drop (length w) s))"

definition after_header :: "string \<Rightarrow> string option" where
  "after_header s = first_word [''projects'', ''portfolio'', ''personal projects''] s"

definition after_last_newline :: "string \<Rightarrow> string option" where
  "after_last_newline s =
     (let w = takeWhile isspace s
      in if newline \<in> set w
         then Some (rev (takeWhile (\<lambda>c. c \<noteq> newline) (rev w)) @ dropWhile isspace s)
         else None)"

definition block_end :: "string \<Rightarrow> string option" where
  "block_end s =
     (case (if take 2 s = [newline, newline]
            then first_word [''skills'', ''experience'', ''education'']
                   (dropWhile isspace (drop 2 s))
            else None) of
        Some r \<Rightarrow> Some r
      | None \<Rightarrow> if s = [] \<or> s = [newline] then Some s else None)"

fun block_from :: "string \<Rightarrow> string \<times> string" where
  "block_from [] = ([], [])"
| "block_from (c # cs) =
     (case block_end (c # cs) of
        Some r \<Rightarrow> ([], r)
      | None \<Rightarrow> (c # fst (block_from cs), snd (block_from cs)))"

definition block_at :: "string \<Rightarrow> (string \<times> string) option" where
  "block_at s =
     (case after_header s of
        None \<Rightarrow> None
      | Some t \<Rightarrow> (case after_last_newline t of None \<Rightarrow> None | Some u \<Rightarrow> Some (block_from u)))"

lemma first_word_length:
  assumes "first_word ws s = Some t" and "[] \<notin> set ws"
  shows "length t < length s"
proof -
  from assms(1) obtain w rest where f: "filter (\<lambda>w. starts_with w s) ws = w # rest"
    and t: "t = drop (length w) s"
    by (auto simp: first_word_def split: list.splits)
  from f have "w \<in> set (filter (\<lambda>w. starts_with w s) ws)" by simp
  then have "w \<in> set ws" and "starts_with w s" by simp_all
  with assms(2) have "w \<noteq> []" and "length w \<le> length s"
    by (auto simp: starts_with_def)
  then show ?thesis using t by (cases w) auto
qed

lemma length_takeWhile_less:
  "x \<in> set xs \<Longrightarrow> \<not> P x \<Longrightarrow> length (takeWhile P xs) < length xs"
  by (induction xs) auto

lemma after_last_newline_length:
  assumes "after_last_newline t = Some u"
  shows "length u < length t"
proof -
  let ?w = "takeWhile isspace t"
  from assms have n: "newline \<in> set ?w"
    and u: "u = rev (takeWhile (\<lambda>c. c \<noteq> newline) (rev ?w)) @ dropWhile isspace t"
    by (auto simp: after_last_newline_def Let_def split: if_splits)
  from n have "newline \<in> set (rev ?w)" by simp
  then have "length (takeWhile (\<lambda>c. c \<noteq> newline) (rev ?w)) < length (rev ?w)"
    by (rule length_takeWhile_less) simp
  moreover have "length ?w + length (dropWhile isspace t) = length t"
    by (simp flip: length_append)
  ultimately show ?thesis using u by simp
qed

lemma block_end_length: "block_end s = Some r \<Longrightarrow> length r \<le> length s"
proof -
  assume a: "block_end s = Some r"
  show ?thesis
  proof (cases "take 2 s = [newline, newline]
                \<and> first_word [''skills'', ''experience'', ''education'']
                     (dropWhile isspace (drop 2 s)) \<noteq> None")
    case True
    with a have "first_word [''skills'', ''experience'', ''education'']
                   (dropWhile isspace (drop 2 s)) = Some r"
      by (auto simp: block_end_def)
    then have "length r < length (dropWhile isspace (drop 2 s))"
      by (rule first_word_length) simp
    also have "\<dots> \<le> length (drop 2 s)" by (rule length_dropWhile_le)
    finally show ?thesis by simp
  next
    case False
    with a show ?thesis by (auto simp: block_end_def split: if_splits option.splits)
  qed
qed

lemma block_from_length: "length (snd (block_from s)) \<le> length s"
proof (induction s)
  case Nil
  show ?case by simp
next
  case (Cons c cs)
  show ?case
  proof (cases "block_end (c # cs)")
    case None
    then have "snd (block_from (c # cs)) = snd (block_from cs)" by simp
    then show ?thesis using Cons by simp
  next
    case (Some r)
    then have "snd (block_from (c # cs)) = r" by simp
    then show ?thesis using block_end_length[OF Some] by simp
  qed
qed

lemma block_at_length:
  assumes "block_at s = Some m"
  shows "length (snd m) < length s"
proof -
  from assms obtain t u where t: "after_header s = Some t"
    and u: "after_last_newline t = Some u" and m: "m = block_from u"
    by (auto simp: block_at_def split: option.splits)
  from t have "length t < length s"
    unfolding after_header_def by (rule first_word_length) simp
  moreover from u have "length u < length t" by (rule after_last_newline_length)
  moreover have "length (snd (block_from u)) \<le> length u" by (rule block_from_length)
  ultimately show ?thesis using m by simp
qed

function project_blocks :: "string \<Rightarrow> string list" where
  "project_blocks s =
     (case block_at s of
        Some m \<Rightarrow> fst m # project_blocks (snd m)
      | None \<Rightarrow> (case s of [] \<Rightarrow> [] | c # cs \<Rightarrow> project_blocks cs))"
  by pat_completeness auto
termination
  by (relation "measure length") (auto dest: block_at_length)

text \<open>
  The extraction as the specification words it, on the lines of the text: every line
  that is one of the three headers, in any casing, gives one block, which holds the
  lines behind the header up to a blank line whose next line is \<open>skills\<close>,
  \<open>experience\<close> or \<open>education\<close>, or up to the end of the text; each block is trimmed.
\<close>

fun split_lines :: "string \<Rightarrow> string list" where
  "split_lines [] = [[]]"
| "split_lines (c # cs) =
     (if c = newline then [] # split_lines cs
      else (case split_lines cs of [] \<Rightarrow> [[c]] | l # ls \<Rightarrow> (c # l) # ls))"

fun join_lines :: "string list \<Rightarrow> string" where
  "join_lines [] = []"
| "join_lines [l] = l"
| "join_lines (l # ls) = l @ newline # join_lines ls"

fun spec_block_lines :: "string list \<Rightarrow> string list" where
  "spec_block_lines [] = []"
| "spec_block_lines (l # ls) =
     (if l = [] \<and> (case ls of [] \<Rightarrow> False
                    | n # _ \<Rightarrow> str_lower n \<in> set [''skills'', ''experience'', ''education''])
      then []
      else l # spec_block_lines ls)"

fun spec_blocks_of_lines :: "string list \<Rightarrow> string list" where
  "spec_blocks_of_lines [] = []"
| "spec_blocks_of_lines (l # ls) =
     (if str_lower l \<in> set [''projects'', ''portfolio'', ''personal projects'']
      then [str_strip (join_lines (spec_block_lines ls))]
      else [])
     @ spec_blocks_of_lines ls"

definition spec_project_blocks :: "string \<Rightarrow> string list" where
  "spec_project_blocks text = spec_blocks_of_lines (split_lines text)"

section \<open>Candidate ranking\<close>

lemma intersection_len_card: "intersection_len js ss = card (set js \<inter> set ss)"
proof -
  have "distinct (filter (\<lambda>s. s \<in> set ss) (remdups js))" by simp
  then have "length (filter (\<lambda>s. s \<in> set ss) (remdups js))
             = card (set (filter (\<lambda>s. s \<in> set ss) (remdups js)))"
    by (simp only: distinct_card)
  also have "set (filter (\<lambda>s. s \<in> set ss) (remdups js)) = set js \<inter> set ss"
    by auto
  finally show ?thesis by (simp add: intersection_len_def)
qed

lemma score_candidate_spec:
  "score_candidate js c =
     c\<lparr>match_score := Some (card (set js \<inter> set (skills c))),
       match_percentage :=
         Some (if 0 < card (set js)
               then 100 * of_nat (card (set js \<inter> set (skills c))) / of_nat (card (set js))
               else 0)\<rparr>"
  by (simp add: score_candidate_def Let_def intersection_len_card length_remdups_card_conv
      card_gt_0_iff)

lemma score_candidate_idem:
  "score_candidate js (score_candidate js c) = score_candidate js c"
  by (simp add: score_candidate_def Let_def)

lemma unranked_score: "unranked (score_candidate js c) = unranked c"
  by (simp add: unranked_def score_candidate_def Let_def)

lemma mset_sort_reverse: "mset (sort_reverse f xs) = mset xs"
  by (simp add: sort_reverse_def)

lemma set_sort_reverse: "set (sort_reverse f xs) = set xs"
  by (simp add: sort_reverse_def)

lemma sorted_sort_reverse: "sorted (rev (map f (sort_reverse f xs)))"
  by (simp add: sort_reverse_def rev_map)

lemma sort_reverse_stable:
  "filter (\<lambda>y. f y = k) (sort_reverse f xs) = filter (\<lambda>y. f y = k) xs"
proof -
  have "filter (\<lambda>y. f y = k) (sort_reverse f xs)
        = rev (filter (\<lambda>y. f y = k) (sort_key f (rev xs)))"
    by (simp add: sort_reverse_def rev_filter)
  also have "\<dots> = rev (filter (\<lambda>y. f y = k) (rev xs))"
    by (simp only: sort_key_stable)
  also have "\<dots> = filter (\<lambda>y. f y = k) xs"
    by (simp add: rev_filter)
  finally show ?thesis .
qed

lemma sort_reverse_id_if_sorted:
  assumes "sorted (rev (map f xs))"
  shows "sort_reverse f xs = xs"
proof -
  from assms have "sorted (map f (rev xs))" by (simp add: rev_map)
  then have "sort_key f (rev xs) = rev xs" by (rule sort_key_id_if_sorted)
  then show ?thesis by (simp add: sort_reverse_def)
qed


text \<open>
  C3. The ranked list is in descending order of \<open>match_percentage\<close>, and the sort is
  stable: for every percentage, the ranked candidates with that percentage are the
  input candidates with that percentage, in the order of the input. For the input
  A (60), B (60), C (80) the ranking is C, A, B.
\<close>

theorem rank_candidates_stable_descending:
  "sorted (rev (map percentage_key (rank_candidates js cs)))
   \<and> (\<forall>p. filter (\<lambda>c. percentage_key c = p) (rank_candidates js cs)
          = map (score_candidate js)
              (filter (\<lambda>c. percentage_key (score_candidate js c) = p) cs))
   \<and> map (\<lambda>c. (name c, match_percentage c))
         (rank_candidates example_job_skills example_candidates)
       = [(''C'', Some 80), (''A'', Some 60), (''B'', Some 60)]"
proof (intro conjI allI)
  show "sorted (rev (map percentage_key (rank_candidates js cs)))"
    by (simp add: rank_candidates_def sorted_sort_reverse)
next
  fix p
  show "filter (\<lambda>c. percentage_key c = p) (rank_candidates js cs)
          = map (score_candidate js)
              (filter (\<lambda>c. percentage_key (score_candidate js c) = p) cs)"
    by (simp add: rank_candidates_def sort_reverse_stable filter_map comp_def)
next
  show "map (\<lambda>c. (name c, match_percentage c))
         (rank_candidates example_job_skills example_candidates)
       = [(''C'', Some 80), (''A'', Some 60), (''B'', Some 60)]"
    by (simp add: rank_candidates_def sort_reverse_def score_candidate_def
        intersection_len_def example_job_skills_def example_candidates_def
        percentage_key_def Let_def)
qed

text \<open>
  C4. Every candidate of the ranked list has both entries; the percentage is between 0
  and 100; the score is the size of the intersection of the job skills with the
  candidate's skills, at most the number of job skills and at most the number of the
  candidate's skills; and the percentage is 0 exactly when there is no job skill or
  the intersection is empty.
\<close>

theorem rank_candidates_bounds:
  assumes "c \<in> set (rank_candidates js cs)"
  shows "\<exists>ms p. match_score c = Some ms \<and> match_percentage c = Some p
           \<and> 0 \<le> p \<and> p \<le> 100
           \<and> ms = card (set js \<inter> set (skills c))
           \<and> ms \<le> card (set js) \<and> ms \<le> card (set (skills c))
           \<and> (p = 0 \<longleftrightarrow> set js = {} \<or> set js \<inter> set (skills c) = {})"
proof -
  from assms obtain d where c: "c = score_candidate js d"
    by (auto simp: rank_candidates_def set_sort_reverse)
  let ?m = "card (set js \<inter> set (skills d))"
  let ?n = "card (set js)"
  have le1: "?m \<le> ?n" by (simp add: card_mono)
  have le2: "?m \<le> card (set (skills d))" by (simp add: card_mono)
  show ?thesis
  proof (cases "set js = {}")
    case True
    then show ?thesis by (simp add: c score_candidate_spec)
  next
    case False
    then have n: "0 < ?n" by (simp add: card_gt_0_iff)
    have "rat_of_nat ?m \<le> rat_of_nat ?n" using le1 by simp
    then have b: "100 * rat_of_nat ?m / rat_of_nat ?n \<le> 100"
      using n by (simp add: divide_le_eq)
    have z: "(100 * rat_of_nat ?m / rat_of_nat ?n = 0) = (set js \<inter> set (skills d) = {})"
      using n False by auto
    show ?thesis using n le1 le2 b z False
      by (simp add: c score_candidate_spec)
  qed
qed

theorem rank_candidates_bounds_witness:
  "score_candidate example_job_skills (hd example_candidates)
     \<in> set (rank_candidates example_job_skills example_candidates)
   \<and> (\<exists>ms p. match_score (score_candidate example_job_skills (hd example_candidates)) = Some ms
        \<and> match_percentage (score_candidate example_job_skills (hd example_candidates)) = Some p
        \<and> 0 \<le> p \<and> p \<le> 100 \<and> ms \<le> 5 \<and> ms \<le> 3 \<and> p \<noteq> 0)"
proof -
  have h: "score_candidate example_job_skills (hd example_candidates)
             \<in> set (rank_candidates example_job_skills example_candidates)"
    by (simp add: rank_candidates_def set_sort_reverse example_candidates_def)
  have j: "card (set example_job_skills) = 5"
    by (simp add: example_job_skills_def)
  have s: "skills (score_candidate example_job_skills (hd example_candidates))
             = [''Python'', ''Sql'', ''Pandas'']"
    by (simp add: score_candidate_def Let_def example_candidates_def)
  have i: "set example_job_skills \<inter> set [''Python'', ''Sql'', ''Pandas''] \<noteq> {}"
    by (simp add: example_job_skills_def)
  have e: "set example_job_skills \<noteq> {}"
    by (simp add: example_job_skills_def)
  from rank_candidates_bounds[OF h] obtain ms p
    where "match_score (score_candidate example_job_skills (hd example_candidates)) = Some ms"
      and "match_percentage (score_candidate example_job_skills (hd example_candidates)) = Some p"
      and "0 \<le> p" and "p \<le> 100"
      and "ms \<le> card (set example_job_skills)"
      and "ms \<le> card (set (skills (score_candidate example_job_skills (hd example_candidates))))"
      and "p = 0 \<longleftrightarrow> set example_job_skills = {}
             \<or> set example_job_skills
                 \<inter> set (skills (score_candidate example_job_skills (hd example_candidates))) = {}"
    by blast
  then show ?thesis using h j s i e by auto
qed

text \<open>
  C8. The ranking of an empty candidate list is the empty list; with no job skill,
  every candidate gets the score 0 and the percentage 0, and the order is the order of
  the input. The model has no failing branch: \<open>rank_candidates\<close> is a total function.
\<close>

theorem rank_candidates_degenerate:
  "rank_candidates js [] = []
   \<and> rank_candidates [] cs
       = map (\<lambda>c. c\<lparr>match_score := Some 0, match_percentage := Some 0\<rparr>) cs"
proof -
  have "sort_reverse percentage_key (map (score_candidate []) cs)
          = map (score_candidate []) cs"
    by (rule sort_reverse_id_if_sorted)
       (simp add: comp_def score_candidate_def percentage_key_def Let_def
          intersection_len_def map_replicate_const)
  then show ?thesis
    by (simp add: rank_candidates_def sort_reverse_def score_candidate_def Let_def
        intersection_len_def)
qed

text \<open>
  C9. Ranking a ranked list again, with the same job skills, gives the same list: the
  same order, the same scores and the same percentages.
\<close>

theorem rank_candidates_idempotent:
  "rank_candidates js (rank_candidates js cs) = rank_candidates js cs"
proof -
  let ?ys = "map (score_candidate js) cs"
  have "map (score_candidate js) (sort_reverse percentage_key ?ys)
          = sort_reverse percentage_key ?ys"
    by (rule map_idI) (auto simp: set_sort_reverse score_candidate_idem)
  moreover have "sort_reverse percentage_key (sort_reverse percentage_key ?ys)
                   = sort_reverse percentage_key ?ys"
    by (rule sort_reverse_id_if_sorted) (rule sorted_sort_reverse)
  ultimately show ?thesis by (simp add: rank_candidates_def)
qed

text \<open>
  C10. Apart from \<open>match_score\<close> and \<open>match_percentage\<close>, the ranked list is a permutation
  of the input: with these two entries taken away, both lists hold the same candidates
  the same number of times, so the name, skills, experience, education and projects of
  every candidate are those of the input.
\<close>

theorem rank_candidates_frame:
  "mset (map unranked (rank_candidates js cs)) = mset (map unranked cs)
   \<and> mset (map (\<lambda>c. (name c, skills c, experience c, education c, projects c))
              (rank_candidates js cs))
       = mset (map (\<lambda>c. (name c, skills c, experience c, education c, projects c)) cs)"
proof
  have "mset (map unranked (rank_candidates js cs))
        = image_mset unranked (mset (map (score_candidate js) cs))"
    by (simp add: rank_candidates_def mset_sort_reverse)
  also have "\<dots> = mset (map (unranked \<circ> score_candidate js) cs)"
    by (simp add: multiset.map_comp)
  also have "unranked \<circ> score_candidate js = unranked"
    by (rule ext) (simp add: unranked_score)
  finally show "mset (map unranked (rank_candidates js cs)) = mset (map unranked cs)" .
next
  let ?f = "\<lambda>c. (name c, skills c, experience c, education c, projects c)"
  have "mset (map ?f (rank_candidates js cs))
        = image_mset ?f (mset (map (score_candidate js) cs))"
    by (simp add: rank_candidates_def mset_sort_reverse)
  also have "\<dots> = mset (map (?f \<circ> score_candidate js) cs)"
    by (simp add: multiset.map_comp)
  also have "?f \<circ> score_candidate js = ?f"
    by (rule ext) (simp add: score_candidate_def Let_def)
  finally show "mset (map ?f (rank_candidates js cs)) = mset (map ?f cs)" .
qed

end
